theory Spec2Isabelle
  imports Complex_Main
begin

section \<open>Characters and strings\<close>

text \<open>
  Python strings are sequences of code points. A \<^typ>\<open>char\<close> stands for a code point
  below 128, the range Engine A's character whitelist produces; on that range
  \<open>str.isspace\<close>, \<open>str.isalpha\<close>, \<open>str.isalnum\<close>, \<open>str.lower\<close> and \<open>str.upper\<close>
  are the ASCII tables below, and the classes \<open>\s\<close> and \<open>\w\<close> of \<open>re\<close> follow them.
  Code points from 128 on are left unclassified: Unicode categories and case mapping
  are outside this development. The tracker only compares and concatenates strings, so
  there a string may hold any text, read as its bytes.
\<close>

definition code :: "char \<Rightarrow> nat" where
  "code c = of_char c"

definition isspace :: "char \<Rightarrow> bool" where
  "isspace c = ((9 \<le> code c \<and> code c \<le> 13) \<or> (28 \<le> code c \<and> code c \<le> 32))"

definition isupper :: "char \<Rightarrow> bool" where
  "isupper c = (65 \<le> code c \<and> code c \<le> 90)"

definition islower :: "char \<Rightarrow> bool" where
  "islower c = (97 \<le> code c \<and> code c \<le> 122)"

definition isalpha :: "char \<Rightarrow> bool" where
  "isalpha c = (isupper c \<or> islower c)"

definition isdigit :: "char \<Rightarrow> bool" where
  "isdigit c = (48 \<le> code c \<and> code c \<le> 57)"

definition isalnum :: "char \<Rightarrow> bool" where
  "isalnum c = (isalpha c \<or> isdigit c)"

definition lower_char :: "char \<Rightarrow> char" where
  "lower_char c = (if isupper c then char_of (code c + 32) else c)"

definition upper_char :: "char \<Rightarrow> char" where
  "upper_char c = (if islower c then char_of (code c - 32) else c)"

text \<open>\<open>str.lower()\<close>.\<close>

definition lower :: "string \<Rightarrow> string" where
  "lower s = map lower_char s"

text \<open>\<open>sub in s\<close> on strings: \<open>sub\<close> occurs in \<open>s\<close> as a contiguous block.\<close>

fun startswith :: "string \<Rightarrow> string \<Rightarrow> bool" where
  "startswith s [] = True"
| "startswith [] (p # ps) = False"
| "startswith (c # cs) (p # ps) = (c = p \<and> startswith cs ps)"

fun str_in :: "string \<Rightarrow> string \<Rightarrow> bool" where
  "str_in sub [] = (sub = [])"
| "str_in sub (c # cs) = (startswith (c # cs) sub \<or> str_in sub cs)"

text \<open>\<open>str.strip()\<close>: whitespace removed at both ends.\<close>

definition lstrip :: "string \<Rightarrow> string" where
  "lstrip s = dropWhile isspace s"

definition rstrip :: "string \<Rightarrow> string" where
  "rstrip s = rev (dropWhile isspace (rev s))"

definition strip :: "string \<Rightarrow> string" where
  "strip s = rstrip (lstrip s)"

text \<open>
  \<open>str.split()\<close> without a separator: the maximal runs of non-whitespace characters,
  in order; \<open>w\<close> is the run being read.
\<close>

fun split_from :: "string \<Rightarrow> string \<Rightarrow> string list" where
  "split_from w [] = (if w = [] then [] else [w])"
| "split_from w (c # cs) =
     (if isspace c then (if w = [] then split_from [] cs else w # split_from [] cs)
      else split_from (w @ [c]) cs)"

definition split :: "string \<Rightarrow> string list" where
  "split s = split_from [] s"

text \<open>\<open>sep.join(words)\<close>.\<close>

fun join :: "string \<Rightarrow> string list \<Rightarrow> string" where
  "join sep [] = []"
| "join sep [w] = w"
| "join sep (w # v # ws) = w @ sep @ join sep (v # ws)"

text \<open>
  \<open>str.split(sep)\<close> with a one-character separator: every occurrence of the separator
  cuts, so a string with \<open>k\<close> separators gives \<open>k + 1\<close> pieces (some may be empty).
\<close>

fun split_on :: "char \<Rightarrow> string \<Rightarrow> string list" where
  "split_on d [] = [[]]"
| "split_on d (c # cs) =
     (if c = d then [] # split_on d cs
      else (case split_on d cs of
              [] \<Rightarrow> [[c]]
            | w # ws \<Rightarrow> (c # w) # ws))"

text \<open>
  \<open>str.title()\<close>: CPython walks the string with the flag \<open>previous_is_cased\<close>; a character
  after a cased one is lower-cased, any other is title-cased. Below code point 128 the
  cased characters are the letters and the title-case mapping is upper-casing; the
  function agrees with \<open>str.title()\<close> on that range only.
\<close>

fun title_from :: "bool \<Rightarrow> string \<Rightarrow> string" where
  "title_from previous_is_cased [] = []"
| "title_from previous_is_cased (c # cs) =
     (if previous_is_cased then lower_char c else upper_char c) # title_from (isalpha c) cs"

definition title :: "string \<Rightarrow> string" where
  "title s = title_from False s"

section \<open>OCR processor\<close>

text \<open>
  The character class of \<open>re.sub(r'[^\w\s\-\']', '', text)\<close>: \<open>\w\<close> is a letter, a digit
  or the underscore, \<open>\s\<close> is whitespace. Below code point 128 this is the class of
  \<open>re\<close>; from 128 on \<open>re\<close> also keeps the letters and digits of Unicode, which the
  tables here do not know, so what is stated of \<open>clean_text\<close> is stated of texts below
  128.
\<close>

definition word_char :: "char \<Rightarrow> bool" where
  "word_char c = (isalnum c \<or> c = CHR ''_'')"

definition kept_char :: "char \<Rightarrow> bool" where
  "kept_char c = (word_char c \<or> isspace c \<or> c = CHR ''-'' \<or> c = CHR 0x27)"

definition clean_text :: "string \<Rightarrow> string" where
  "clean_text text0 =
     (let text1 = join '' '' (split text0);
          text2 = filter kept_char text1;
          text3 = title text2
      in strip text3)"

definition card_keywords :: "string list" where
  "card_keywords =
     [''adventure'', ''artifact'', ''companion'', ''equipment'', ''skill'',
      ''market'', ''dungeon'', ''major secret'', ''minor secret'',
      ''clank'', ''skill point'', ''movement'', ''attack'', ''gold'']"


text \<open>
  Python floats are binary64 values, each a rational. The literal \<open>0.7\<close> denotes the
  nearest one, \<open>6305039478318694 / 2^53\<close>, a little below seven tenths.
\<close>

definition mantissa_0_7 :: nat where
  "mantissa_0_7 = 6305039478318694"

definition double_0_7 :: rat where
  "double_0_7 = 6305039478318694 / 2 ^ 53"

fun bit_length :: "nat \<Rightarrow> nat" where
  "bit_length n = (if n = 0 then 0 else Suc (bit_length (n div 2)))"

declare bit_length.simps [simp del]

text \<open>
  \<open>n * 0.7\<close> for an integer \<open>n\<close> (converted exactly, \<open>n\<close> being small): the exact
  product \<open>n * mantissa_0_7 / 2^53\<close> rounded to 53 significant bits, ties to the even
  mantissa.
\<close>

definition times_0_7 :: "nat \<Rightarrow> rat" where
  "times_0_7 n =
     (let p = n * mantissa_0_7;
          s = bit_length p - 53;
          q = p div 2 ^ s;
          r = p mod 2 ^ s;
          q' = (if 2 ^ s < 2 * r \<or> (2 * r = 2 ^ s \<and> odd q) then q + 1 else q)
      in of_nat (q' * 2 ^ s) / 2 ^ 53)"

definition is_likely_card_name :: "string \<Rightarrow> bool" where
  "is_likely_card_name text =
     (if text = [] \<or> length text < 3 then False
      else if list_ex (\<lambda>keyword. str_in keyword (lower text)) card_keywords then True
      else if 3 \<le> length text \<and> length text \<le> 30 \<and>
              times_0_7 (length text) \<le> of_nat (length (filter isalpha text)) then True
      else False)"

text \<open>
  The two recognisers are external: \<open>pytesseract.image_to_string\<close> gives a text and
  \<open>easyocr.Reader.readtext\<close> a list of (box, text, confidence); \<open>None\<close> stands for an
  exception raised inside the engine. Both adapters catch it and return an empty result.
\<close>

record ('img, 'box) ocr_processor =
  image_to_string :: "'img \<Rightarrow> string option"
  readtext :: "'img \<Rightarrow> ('box \<times> string \<times> rat) list option"

definition extract_text_pytesseract :: "('img, 'box) ocr_processor \<Rightarrow> 'img \<Rightarrow> string" where
  "extract_text_pytesseract self img =
     (case image_to_string self img of
        Some text \<Rightarrow> strip text
      | None \<Rightarrow> [])"

definition extract_text_easyocr ::
    "('img, 'box) ocr_processor \<Rightarrow> 'img \<Rightarrow> (string \<times> rat) list" where
  "extract_text_easyocr self img =
     (case readtext self img of
        Some results \<Rightarrow> map (\<lambda>result. (fst (snd result), snd (snd result))) results
      | None \<Rightarrow> [])"

text \<open>The loops of \<open>extract_card_names\<close>, each a left fold over its input.\<close>

definition add_line :: "string list \<Rightarrow> string \<Rightarrow> string list" where
  "add_line card_names line =
     (let cleaned_line = clean_text line
      in if is_likely_card_name cleaned_line then card_names @ [cleaned_line] else card_names)"

definition add_region :: "string list \<Rightarrow> string \<times> rat \<Rightarrow> string list" where
  "add_region card_names region =
     (if double_0_7 < snd region
      then (let cleaned_text = clean_text (fst region)
            in if is_likely_card_name cleaned_text then card_names @ [cleaned_text]
               else card_names)
      else card_names)"

definition add_unique :: "string list \<Rightarrow> string \<Rightarrow> string list" where
  "add_unique unique_cards c =
     (if c \<notin> set unique_cards then unique_cards @ [c] else unique_cards)"

text \<open>An adapter invocation, with the image it was given.\<close>

datatype 'img adapter_call = Pytesseract_call 'img | Easyocr_call 'img

text \<open>
  \<open>extract_card_names\<close> with the adapter invocations it makes, in order, beside its
  result.
\<close>

definition extract_card_names_calls ::
    "('img, 'box) ocr_processor \<Rightarrow> 'img \<Rightarrow> string list \<times> 'img adapter_call list" where
  "extract_card_names_calls self img =
     (let tesseract_text = extract_text_pytesseract self img;
          easyocr_results = extract_text_easyocr self img;
          card_names0 = (if tesseract_text \<noteq> []
                         then foldl add_line [] (split_on CHR 0x0A tesseract_text)
                         else []);
          card_names = foldl add_region card_names0 easyocr_results;
          unique_cards = foldl add_unique [] card_names
      in (unique_cards, [Pytesseract_call img, Easyocr_call img]))"

definition extract_card_names :: "('img, 'box) ocr_processor \<Rightarrow> 'img \<Rightarrow> string list" where
  "extract_card_names self img = fst (extract_card_names_calls self img)"

section \<open>Screen capture\<close>

text \<open>
  A PIL image, by mode: \<open>RGB\<close> rows of (r, g, b) pixels, or single-channel \<open>L\<close> rows.
  The colour weights of \<open>cv2.COLOR_BGR2GRAY\<close> and the threshold Otsu's method picks
  belong to OpenCV and are parameters; channel swapping and the binary threshold are
  written out. \<open>cv2.cvtColor\<close> with \<open>COLOR_RGB2BGR\<close> raises on a single-channel array.
\<close>

datatype image = Image_RGB "(nat \<times> nat \<times> nat) list list" | Image_L "nat list list"

datatype cv2_error = Invalid_number_of_channels

definition preprocess_for_ocr ::
    "(nat \<times> nat \<times> nat \<Rightarrow> nat) \<Rightarrow> (nat list list \<Rightarrow> nat) \<Rightarrow> image \<Rightarrow> cv2_error + image" where
  "preprocess_for_ocr bgr2gray otsu img =
     (case img of
        Image_RGB pixels \<Rightarrow>
          (let cv_image = map (map (\<lambda>(r, g, b). (b, g, r))) pixels;
               gray = map (map bgr2gray) cv_image;
               t = otsu gray;
               thresh = map (map (\<lambda>p. if t < p then 255 else 0)) gray
           in Inr (Image_L thresh))
      | Image_L pixels \<Rightarrow> Inl Invalid_number_of_channels)"

section \<open>Game tracker\<close>

text \<open>
  JSON-like values, for the free-form \<open>data\<close> of an event and the \<open>ocr_results\<close> of a
  screenshot.
\<close>

datatype json =
  JNull | JBool bool | JNum int | JStr string | JList "json list" | JDict "(string \<times> json) list"

record card_event =
  card_name :: string
  timestamp :: string
  screenshot :: "string option"
  confidence :: string

record game_event =
  event_type :: string
  description :: string
  event_timestamp :: string
  data :: "(string \<times> json) list"

record screenshot_data =
  path :: string
  screenshot_timestamp :: string
  ocr_results :: "(string \<times> json) list option"

text \<open>
  \<open>self.current_session\<close>, a dictionary with fixed keys; \<open>end_time\<close> is absent until
  the first save.
\<close>

record session =
  session_id :: string
  start_time :: string
  end_time :: "string option"
  cards_seen :: "card_event list"
  scenarios :: "string list"
  game_events :: "game_event list"
  screenshots :: "screenshot_data list"

text \<open>
  Every operation that reads the clock takes the reading as an argument: \<open>now\<close> is
  \<open>datetime.now().isoformat()\<close>, \<open>stamp\<close> is
  \<open>datetime.now().strftime("%Y%m%d_%H%M%S")\<close>.
\<close>

definition generate_session_id :: "string \<Rightarrow> string" where
  "generate_session_id stamp = ''clank_session_'' @ stamp"

definition init_session :: "string \<Rightarrow> string \<Rightarrow> session" where
  "init_session stamp now =
     \<lparr>session_id = generate_session_id stamp,
      start_time = now,
      end_time = None,
      cards_seen = [],
      scenarios = [],
      game_events = [],
      screenshots = []\<rparr>"

text \<open>The body of the loop of \<open>track_card_detection\<close>, and the loop.\<close>

definition add_card :: "string option \<Rightarrow> string \<Rightarrow> session \<Rightarrow> string \<Rightarrow> session" where
  "add_card screenshot_path now s name =
     (let card_event =
            \<lparr>card_name = name, timestamp = now, screenshot = screenshot_path,
             confidence = ''detected''\<rparr>
      in if name \<notin> set (map card_name (cards_seen s))
         then s\<lparr>cards_seen := cards_seen s @ [card_event]\<rparr>
         else s)"

definition track_card_detection ::
    "session \<Rightarrow> string list \<Rightarrow> string option \<Rightarrow> string \<Rightarrow> session" where
  "track_card_detection s card_names screenshot_path now =
     foldl (add_card screenshot_path now) s card_names"

definition track_game_event ::
    "session \<Rightarrow> string \<Rightarrow> string \<Rightarrow> (string \<times> json) list option \<Rightarrow> string \<Rightarrow> session" where
  "track_game_event s etype descr d now =
     (let event =
            \<lparr>event_type = etype, description = descr, event_timestamp = now,
             data = (case d of None \<Rightarrow> [] | Some m \<Rightarrow> m)\<rparr>
      in s\<lparr>game_events := game_events s @ [event]\<rparr>)"

definition track_screenshot ::
    "session \<Rightarrow> string \<Rightarrow> (string \<times> json) list option \<Rightarrow> string \<Rightarrow> session" where
  "track_screenshot s screenshot_path results now =
     (let shot =
            \<lparr>path = screenshot_path, screenshot_timestamp = now, ocr_results = results\<rparr>
      in s\<lparr>screenshots := screenshots s @ [shot]\<rparr>)"

definition identify_scenario :: "string list \<Rightarrow> string" where
  "identify_scenario detected_cards =
     (if list_ex (\<lambda>c. str_in ''dungeon'' (lower c)) detected_cards then ''Dungeon Exploration''
      else if list_ex (\<lambda>c. str_in ''market'' (lower c)) detected_cards then ''Market Phase''
      else if list_ex (\<lambda>c. str_in ''artifact'' (lower c)) detected_cards
        then ''Artifact Acquisition''
      else ''Unknown Scenario'')"

text \<open>
  Files: a map from paths to contents. \<open>json.dump\<close> and \<open>json.load\<close> belong to the
  standard library and are parameters; \<open>json_load\<close> gives \<open>None\<close> where \<open>json.load\<close>
  raises \<open>JSONDecodeError\<close>.
\<close>

type_synonym files = "string \<rightharpoonup> string"

definition save_session ::
    "string \<Rightarrow> (session \<Rightarrow> string) \<Rightarrow> session \<Rightarrow> files \<Rightarrow> string \<Rightarrow> string \<times> session \<times> files" where
  "save_session save_directory json_dump s fs now =
     (let session_file = save_directory @ ''/'' @ session_id s @ ''.json'';
          s' = s\<lparr>end_time := Some now\<rparr>
      in (session_file, s', fs(session_file \<mapsto> json_dump s')))"

datatype load_error = FileNotFoundError | JSONDecodeError

text \<open>
  \<open>load_session\<close>: the live session is whatever document \<open>json.load\<close> returns, of any
  shape, so the operation is stated over any type \<open>'doc\<close> of documents. The outcome is
  paired with the session that is live afterwards.
\<close>

definition load_session ::
    "(string \<Rightarrow> 'doc option) \<Rightarrow> files \<Rightarrow> 'doc \<Rightarrow> string \<Rightarrow> (load_error + unit) \<times> 'doc" where
  "load_session json_load fs current session_file =
     (case fs session_file of
        None \<Rightarrow> (Inl FileNotFoundError, current)
      | Some content \<Rightarrow>
          (case json_load content of
             None \<Rightarrow> (Inl JSONDecodeError, current)
           | Some doc \<Rightarrow> (Inr (), doc)))"

record stats =
  stats_session_id :: string
  duration :: string
  unique_cards_seen :: nat
  total_events :: nat
  screenshots_captured :: nat
  scenarios_identified :: nat

text \<open>
  \<open>get_session_stats\<close>; \<open>dur\<close> is the result of \<open>_calculate_session_duration\<close>, which
  reads the clock. \<open>len(set(xs))\<close> counts the distinct entries.
\<close>

definition get_session_stats :: "session \<Rightarrow> string \<Rightarrow> stats" where
  "get_session_stats s dur =
     \<lparr>stats_session_id = session_id s,
      duration = dur,
      unique_cards_seen = length (cards_seen s),
      total_events = length (game_events s),
      screenshots_captured = length (screenshots s),
      scenarios_identified = length (remdups (scenarios s))\<rparr>"

text \<open>\<open>str(n)\<close> for a non-negative integer.\<close>

function str_nat :: "nat \<Rightarrow> string" where
  "str_nat n =
     (if n < 10 then [char_of (48 + n)] else str_nat (n div 10) @ [char_of (48 + n mod 10)])"
  by pat_completeness auto
termination
  by (relation "measure (\<lambda>n. n)") auto

declare str_nat.simps [simp del]

text \<open>\<open>xs[i:]\<close>: a negative start counts from the end and is clamped at the front.\<close>

definition slice_from :: "int \<Rightarrow> 'a list \<Rightarrow> 'a list" where
  "slice_from i xs =
     (let n = int (length xs);
          start = (if i < 0 then max 0 (n + i) else min i n)
      in drop (nat start) xs)"

text \<open>
  The report. The three pictographs of the headings are written as their UTF-8 bytes;
  the report is only concatenated, never inspected.
\<close>

definition newline :: string where
  "newline = [CHR 0x0A]"

definition report_head :: "stats \<Rightarrow> string" where
  "report_head st =
     newline @
     [CHR 0xF0, CHR 0x9F, CHR 0x8E, CHR 0xAE] @ '' CLANK! Tracker Session Report'' @ newline @
     ''================================'' @ newline @
     newline @
     ''Session ID: '' @ stats_session_id st @ newline @
     ''Duration: '' @ duration st @ newline @
     ''Cards Detected: '' @ str_nat (unique_cards_seen st) @ newline @
     ''Game Events: '' @ str_nat (total_events st) @ newline @
     ''Screenshots: '' @ str_nat (screenshots_captured st) @ newline @
     newline @
     [CHR 0xF0, CHR 0x9F, CHR 0x93, CHR 0x84] @ '' Cards Seen:'' @ newline"

definition card_line :: "card_event \<Rightarrow> string" where
  "card_line c = ''  - '' @ card_name c @ '' (at '' @ timestamp c @ '')'' @ newline"

definition events_heading :: string where
  "events_heading =
     newline @ [CHR 0xF0, CHR 0x9F, CHR 0x8E, CHR 0xAF] @ '' Game Events:'' @ newline"

definition event_line :: "game_event \<Rightarrow> string" where
  "event_line e = ''  - '' @ event_type e @ '': '' @ description e @ newline"

definition generate_session_report :: "session \<Rightarrow> string \<Rightarrow> string" where
  "generate_session_report s dur =
     (let st = get_session_stats s dur;
          report0 = report_head st;
          report1 = foldl (\<lambda>report c. report @ card_line c) report0 (cards_seen s);
          report2 = report1 @ events_heading;
          report3 = foldl (\<lambda>report e. report @ event_line e) report2
                      (slice_from (- 5) (game_events s))
      in report3)"

text \<open>
  The operations of the tracker on a session built in place, as a caller may issue
  them, and their effect on the session and the files.
\<close>

datatype operation =
    Track_card_detection "string list" "string option" string
  | Track_game_event string string "(string \<times> json) list option" string
  | Track_screenshot string "(string \<times> json) list option" string
  | Identify_scenario "string list"
  | Save_session string
  | Get_session_stats string
  | Generate_session_report string

fun perform ::
    "string \<Rightarrow> (session \<Rightarrow> string) \<Rightarrow> session \<times> files \<Rightarrow> operation \<Rightarrow> session \<times> files" where
  "perform dir dump (s, fs) (Track_card_detection names shot now) =
     (track_card_detection s names shot now, fs)"
| "perform dir dump (s, fs) (Track_game_event etype descr d now) =
     (track_game_event s etype descr d now, fs)"
| "perform dir dump (s, fs) (Track_screenshot p results now) =
     (track_screenshot s p results now, fs)"
| "perform dir dump (s, fs) (Identify_scenario cards) = (s, fs)"
| "perform dir dump (s, fs) (Save_session now) = snd (save_session dir dump s fs now)"
| "perform dir dump (s, fs) (Get_session_stats dur) = (s, fs)"
| "perform dir dump (s, fs) (Generate_session_report dur) = (s, fs)"

section \<open>Reference formulations\<close>

text \<open>
  What the properties below compare the code with, written without reference to the
  code's own loops.

  Keeping the first element for every key: the head stays, later elements with the
  same key go.
\<close>

fun dedup_by :: "('a \<Rightarrow> 'k) \<Rightarrow> 'a list \<Rightarrow> 'a list" where
  "dedup_by key [] = []"
| "dedup_by key (x # xs) = x # dedup_by key (filter (\<lambda>y. key y \<noteq> key x) xs)"

text \<open>
  A run of \<open>track_card_detection\<close> calls, each with its names, screenshot path and
  clock reading, is a stream of single detections in arrival order.
\<close>

definition detections ::
    "(string list \<times> string option \<times> string) list \<Rightarrow> (string \<times> string option \<times> string) list" where
  "detections calls =
     concat (map (\<lambda>call. map (\<lambda>name. (name, snd call)) (fst call)) calls)"

definition to_event :: "string \<times> string option \<times> string \<Rightarrow> card_event" where
  "to_event d =
     \<lparr>card_name = fst d, timestamp = snd (snd d), screenshot = fst (snd d),
      confidence = ''detected''\<rparr>"

text \<open>One call of \<open>track_card_detection\<close>, its arguments given as a triple.\<close>

definition ingest :: "session \<Rightarrow> string list \<times> string option \<times> string \<Rightarrow> session" where
  "ingest s call = track_card_detection s (fst call) (fst (snd call)) (snd (snd call))"

text \<open>One detection, as the loop body of \<open>track_card_detection\<close> treats it.\<close>

definition add_detection :: "session \<Rightarrow> string \<times> string option \<times> string \<Rightarrow> session" where
  "add_detection s d = add_card (fst (snd d)) (snd (snd d)) s (fst d)"

text \<open>
  A confidence is a float: every binary64 value from one half on is a whole multiple of
  \<open>2^-53\<close>.
\<close>

definition binary64_grid :: "rat \<Rightarrow> bool" where
  "binary64_grid c = (c < 1 / 2 \<or> of_int \<lfloor>c * 2 ^ 53\<rfloor> = c * 2 ^ 53)"

text \<open>
  The lines of Engine A and the regions of Engine B that survive: cleaned, then kept
  when the heuristic accepts them; a region must first have a confidence above seven
  tenths.
\<close>

definition surviving_lines :: "('img, 'box) ocr_processor \<Rightarrow> 'img \<Rightarrow> string list" where
  "surviving_lines self img =
     filter is_likely_card_name
       (map clean_text (split_on CHR 0x0A (extract_text_pytesseract self img)))"

definition surviving_regions :: "('img, 'box) ocr_processor \<Rightarrow> 'img \<Rightarrow> string list" where
  "surviving_regions self img =
     filter is_likely_card_name
       (map (\<lambda>region. clean_text (fst region))
          (filter (\<lambda>region. 7 / 10 < snd region) (extract_text_easyocr self img)))"

text \<open>
  The cleaning steps as the specification words them.

  Collapsing: each maximal run of whitespace becomes one space; the flag tells whether
  the previous character was whitespace.
\<close>

fun collapse_from :: "bool \<Rightarrow> string \<Rightarrow> string" where
  "collapse_from after_space [] = []"
| "collapse_from after_space (c # cs) =
     (if isspace c
      then (if after_space then collapse_from True cs else CHR '' '' # collapse_from True cs)
      else c # collapse_from False cs)"

definition collapse_whitespace :: "string \<Rightarrow> string" where
  "collapse_whitespace s = collapse_from False s"

text \<open>Stripping: alphanumerics, whitespace, hyphen and apostrophe stay.\<close>

definition claimed_char :: "char \<Rightarrow> bool" where
  "claimed_char c = (isalnum c \<or> isspace c \<or> c = CHR ''-'' \<or> c = CHR 0x27)"

text \<open>
  Title case over whitespace-delimited words: the first character of a word is
  upper-cased, the others are lower-cased; the flag tells whether a word is being read.
\<close>

fun capitalize_from :: "bool \<Rightarrow> string \<Rightarrow> string" where
  "capitalize_from in_word [] = []"
| "capitalize_from in_word (c # cs) =
     (if isspace c then c # capitalize_from False cs
      else (if in_word then lower_char c else upper_char c) # capitalize_from True cs)"

definition capitalize_words :: "string \<Rightarrow> string" where
  "capitalize_words s = capitalize_from False s"

definition claimed_clean :: "string \<Rightarrow> string" where
  "claimed_clean s = strip (capitalize_words (filter claimed_char (collapse_whitespace s)))"

text \<open>
  The same steps with the hyphen as a second word delimiter: the first character after
  whitespace or a hyphen is upper-cased, the others are lower-cased.
\<close>

definition word_break :: "char \<Rightarrow> bool" where
  "word_break c = (isspace c \<or> c = CHR ''-'')"

fun hyphen_capitalize_from :: "bool \<Rightarrow> string \<Rightarrow> string" where
  "hyphen_capitalize_from in_word [] = []"
| "hyphen_capitalize_from in_word (c # cs) =
     (if word_break c then c # hyphen_capitalize_from False cs
      else (if in_word then lower_char c else upper_char c) # hyphen_capitalize_from True cs)"

definition hyphen_capitalize_words :: "string \<Rightarrow> string" where
  "hyphen_capitalize_words s = hyphen_capitalize_from False s"

definition hyphen_clean :: "string \<Rightarrow> string" where
  "hyphen_clean s =
     strip (hyphen_capitalize_words (filter claimed_char (collapse_whitespace s)))"

text \<open>
  A text whose letters stand only at the start, after a letter, after whitespace or
  after a hyphen; the flag tells whether a letter may come next.
\<close>

fun letters_after_breaks_from :: "bool \<Rightarrow> string \<Rightarrow> bool" where
  "letters_after_breaks_from letter_allowed [] = True"
| "letters_after_breaks_from letter_allowed (c # cs) =
     ((if isalpha c then letter_allowed else True) \<and>
      letters_after_breaks_from (isalpha c \<or> word_break c) cs)"

definition letters_after_breaks :: "string \<Rightarrow> bool" where
  "letters_after_breaks s = letters_after_breaks_from True s"

text \<open>A text of code points below 128, the range the character tables cover.\<close>

definition ascii_only :: "string \<Rightarrow> bool" where
  "ascii_only s = list_all (\<lambda>c. code c < 128) s"

text \<open>
  Whether \<open>extract_card_names\<close> hands the preprocessed image to both adapters, the
  grey weights and the threshold choice of OpenCV given.
\<close>

definition adapters_get_preprocessed ::
    "(nat \<times> nat \<times> nat \<Rightarrow> nat) \<Rightarrow> (nat list list \<Rightarrow> nat) \<Rightarrow> (image, 'box) ocr_processor \<Rightarrow>
     image \<Rightarrow> bool" where
  "adapters_get_preprocessed bgr2gray otsu self img =
     (case preprocess_for_ocr bgr2gray otsu img of
        Inl e \<Rightarrow> False
      | Inr processed \<Rightarrow>
          snd (extract_card_names_calls self img) =
            [Pytesseract_call processed, Easyocr_call processed])"

section \<open>Sample data\<close>

text \<open>
  A stand-in for \<open>json.load\<close> that reads one document, the empty object, and rejects
  every other text.
\<close>

definition toy_json_load :: "string \<Rightarrow> json option" where
  "toy_json_load content = (if content = ''{}'' then Some (JDict []) else None)"

text \<open>
  Two detection calls: the second repeats a name of the first and brings a name that
  differs from an earlier one in case only.
\<close>

definition sample_calls :: "(string list \<times> string option \<times> string) list" where
  "sample_calls =
     [([''Adventure Card'', ''Adventure Card'', ''New Card''], None, ''2024-05-01T10:00:00''),
      ([''New Card'', ''adventure card''], Some ''shot.png'', ''2024-05-01T10:00:05'')]"

definition sample_cards :: session where
  "sample_cards =
     foldl ingest (init_session ''20240501_095900'' ''2024-05-01T09:59:00'') sample_calls"

definition sample_turn :: "string \<Rightarrow> game_event" where
  "sample_turn d =
     \<lparr>event_type = ''turn'', description = d, event_timestamp = ''2024-05-01T10:02:00'',
      data = []\<rparr>"

text \<open>The session of the sample calls, with seven game events recorded after them.\<close>

definition sample_report_session :: session where
  "sample_report_session =
     foldl (\<lambda>s d. track_game_event s ''turn'' d None ''2024-05-01T10:02:00'')
       sample_cards
       [''one'', ''two'', ''three'', ''four'', ''five'', ''six'', ''seven'']"

definition sample_operations :: "operation list" where
  "sample_operations =
     [Track_card_detection [''Dungeon Room''] None ''2024-05-01T10:00:00'',
      Identify_scenario [''Dungeon Room''],
      Track_game_event ''turn'' ''one'' None ''2024-05-01T10:02:00'',
      Save_session ''2024-05-01T10:03:00'',
      Get_session_stats ''00:04:00'']"

text \<open>
  A one-row colour image and a pair of engines that read text off colour images only.
\<close>

definition sample_image :: image where
  "sample_image = Image_RGB [[(0, 0, 0), (255, 255, 255)]]"

definition sample_processor :: "(image, unit) ocr_processor" where
  "sample_processor =
     \<lparr>image_to_string = (\<lambda>img. case img of
          Image_RGB pixels \<Rightarrow>
            Some ('' skill point'' @ [CHR 0x0A] @ ''12345'' @ [CHR 0x0A] @ ''Dungeon-room '' @ [CHR 0x0A])
        | Image_L pixels \<Rightarrow> Some ''Ancient Artifact''),
      readtext = (\<lambda>img. case img of
          Image_RGB pixels \<Rightarrow>
            Some [((), ''dungeon-ROOM'', 7 / 8), ((), ''Gold Coin'', 1 / 2),
                  ((), ''market stall'', 3 / 4)]
        | Image_L pixels \<Rightarrow> None)\<rparr>"

text \<open>Stand-ins for the grey weights and for the threshold choice.\<close>

definition sample_bgr2gray :: "nat \<times> nat \<times> nat \<Rightarrow> nat" where
  "sample_bgr2gray p = (case p of (b, g, r) \<Rightarrow> (114 * b + 587 * g + 299 * r + 500) div 1000)"

definition sample_otsu :: "nat list list \<Rightarrow> nat" where
  "sample_otsu gray = 127"

text \<open>Engines that agree with the sample engines on colour images only.\<close>

definition other_processor :: "(image, unit) ocr_processor" where
  "other_processor =
     \<lparr>image_to_string = (\<lambda>img. case img of
          Image_RGB pixels \<Rightarrow> image_to_string sample_processor img
        | Image_L pixels \<Rightarrow> None),
      readtext = (\<lambda>img. case img of
          Image_RGB pixels \<Rightarrow> readtext sample_processor img
        | Image_L pixels \<Rightarrow> Some [((), ''Skill Point'', 1)])\<rparr>"

section \<open>Properties\<close>

subsection \<open>Substrings\<close>

lemma startswith_iff: "startswith s p = (\<exists>post. s = p @ post)"
  by (induction s p rule: startswith.induct) auto

lemma str_in_iff: "str_in sub s = (\<exists>pre post. s = pre @ sub @ post)"
proof (induction s)
  case Nil
  then show ?case by auto
next
  case (Cons c cs)
  show ?case
  proof
    assume "str_in sub (c # cs)"
    then consider "startswith (c # cs) sub" | "str_in sub cs" by auto
    then show "\<exists>pre post. c # cs = pre @ sub @ post"
    proof cases
      case 1
      then obtain post where "c # cs = sub @ post" by (auto simp: startswith_iff)
      then have "c # cs = [] @ sub @ post" by simp
      then show ?thesis by blast
    next
      case 2
      with Cons obtain pre post where "cs = pre @ sub @ post" by auto
      then have "c # cs = (c # pre) @ sub @ post" by simp
      then show ?thesis by blast
    qed
  next
    assume "\<exists>pre post. c # cs = pre @ sub @ post"
    then obtain pre post where eq: "c # cs = pre @ sub @ post" by blast
    show "str_in sub (c # cs)"
    proof (cases pre)
      case Nil
      with eq have "startswith (c # cs) sub" by (auto simp: startswith_iff)
      then show ?thesis by simp
    next
      case (Cons d pre')
      with eq have "cs = pre' @ sub @ post" by simp
      with Cons.IH have "str_in sub cs" by blast
      then show ?thesis by simp
    qed
  qed
qed

subsection \<open>Scenario classification\<close>

text \<open>
  Claim C8. \<open>identify_scenario\<close> tries three rules in a fixed order, each asking whether
  some name contains a word once lower-cased: "dungeon" gives "Dungeon Exploration",
  else "market" gives "Market Phase", else "artifact" gives "Artifact Acquisition",
  else the result is "Unknown Scenario". The result depends on the set of names only,
  not on their order: "Dungeon Room" with "Market Stall" is a dungeon scenario either
  way round.
\<close>

theorem identify_scenario_priority:
  "identify_scenario cards =
     (if \<exists>c \<in> set cards. \<exists>pre post. lower c = pre @ ''dungeon'' @ post
        then ''Dungeon Exploration''
      else if \<exists>c \<in> set cards. \<exists>pre post. lower c = pre @ ''market'' @ post
        then ''Market Phase''
      else if \<exists>c \<in> set cards. \<exists>pre post. lower c = pre @ ''artifact'' @ post
        then ''Artifact Acquisition''
      else ''Unknown Scenario'')
   \<and> (set cards' = set cards \<longrightarrow> identify_scenario cards' = identify_scenario cards)
   \<and> identify_scenario [''Dungeon Room'', ''Market Stall''] = ''Dungeon Exploration''
   \<and> identify_scenario [''Market Stall'', ''Dungeon Room''] = ''Dungeon Exploration''"
proof (intro conjI impI)
  show "identify_scenario cards =
     (if \<exists>c \<in> set cards. \<exists>pre post. lower c = pre @ ''dungeon'' @ post
        then ''Dungeon Exploration''
      else if \<exists>c \<in> set cards. \<exists>pre post. lower c = pre @ ''market'' @ post
        then ''Market Phase''
      else if \<exists>c \<in> set cards. \<exists>pre post. lower c = pre @ ''artifact'' @ post
        then ''Artifact Acquisition''
      else ''Unknown Scenario'')"
    unfolding identify_scenario_def list_ex_iff str_in_iff ..
  show "identify_scenario cards' = identify_scenario cards" if "set cards' = set cards"
    using that unfolding identify_scenario_def list_ex_iff by simp
  show "identify_scenario [''Dungeon Room'', ''Market Stall''] = ''Dungeon Exploration''"
    by code_simp
  show "identify_scenario [''Market Stall'', ''Dungeon Room''] = ''Dungeon Exploration''"
    by code_simp
qed

theorem identify_scenario_priority_witness:
  "identify_scenario [''Cave'', ''Old Market'', ''DUNGEON Key'', ''Old Market''] =
     identify_scenario [''Old Market'', ''DUNGEON Key'', ''Cave'']
   \<and> identify_scenario [''Old Market'', ''DUNGEON Key'', ''Cave''] = ''Dungeon Exploration''"
proof -
  have s: "set [''Cave'', ''Old Market'', ''DUNGEON Key'', ''Old Market''] =
           set [''Old Market'', ''DUNGEON Key'', ''Cave'']"
    by auto
  have d: "\<exists>c \<in> set [''Old Market'', ''DUNGEON Key'', ''Cave''].
             \<exists>pre post. lower c = pre @ ''dungeon'' @ post"
  proof -
    have "lower ''DUNGEON Key'' = [] @ ''dungeon'' @ '' key''" by code_simp
    then show ?thesis by (metis list.set_intros(1) list.set_intros(2))
  qed
  from identify_scenario_priority
    [of "[''Old Market'', ''DUNGEON Key'', ''Cave'']"
        "[''Cave'', ''Old Market'', ''DUNGEON Key'', ''Old Market'']"]
  show ?thesis using s d by simp
qed

subsection \<open>Loading a session\<close>

text \<open>
  Claim C7. When the file parses, \<open>load_session\<close> makes the parsed document the live
  session, whole. When the file does not parse, it fails with the decoder's error and
  the live session is the one from before; the same holds when the file is missing.
  No failure changes the live session.
\<close>

theorem load_session_replaces_or_keeps:
  "(fs session_file = Some content \<and> json_load content = Some doc \<longrightarrow>
      load_session json_load fs current session_file = (Inr (), doc))
   \<and> (fs session_file = Some content \<and> json_load content = None \<longrightarrow>
      load_session json_load fs current session_file = (Inl JSONDecodeError, current))
   \<and> (fs session_file = None \<longrightarrow>
      load_session json_load fs current session_file = (Inl FileNotFoundError, current))
   \<and> (\<forall>e. fst (load_session json_load fs current session_file) = Inl e \<longrightarrow>
      snd (load_session json_load fs current session_file) = current)"
  by (auto simp: load_session_def split: option.splits)

theorem load_session_replaces_or_keeps_witness:
  "load_session toy_json_load
       [''docs/ok.json'' \<mapsto> ''{}'', ''docs/corrupted.json'' \<mapsto> ''{ invalid json content'']
       (JDict [(''session_id'', JStr ''clank_session_1'')]) ''docs/corrupted.json''
     = (Inl JSONDecodeError, JDict [(''session_id'', JStr ''clank_session_1'')])
   \<and> load_session toy_json_load
       [''docs/ok.json'' \<mapsto> ''{}'', ''docs/corrupted.json'' \<mapsto> ''{ invalid json content'']
       (JDict [(''session_id'', JStr ''clank_session_1'')]) ''docs/ok.json''
     = (Inr (), JDict [])"
proof -
  let ?fs = "[''docs/ok.json'' \<mapsto> ''{}'', ''docs/corrupted.json'' \<mapsto> ''{ invalid json content'']"
  let ?cur = "JDict [(''session_id'', JStr ''clank_session_1'')]"
  have a: "?fs ''docs/corrupted.json'' = Some ''{ invalid json content''" by simp
  have b: "toy_json_load ''{ invalid json content'' = None" by (simp add: toy_json_load_def)
  have c: "?fs ''docs/ok.json'' = Some ''{}''" by simp
  have d: "toy_json_load ''{}'' = Some (JDict [])" by (simp add: toy_json_load_def)
  from load_session_replaces_or_keeps
         [of ?fs "''docs/corrupted.json''" "''{ invalid json content''" toy_json_load _ ?cur] a b
  have 1: "load_session toy_json_load ?fs ?cur ''docs/corrupted.json'' = (Inl JSONDecodeError, ?cur)"
    by blast
  from load_session_replaces_or_keeps
         [of ?fs "''docs/ok.json''" "''{}''" toy_json_load "JDict []" ?cur] c d
  have 2: "load_session toy_json_load ?fs ?cur ''docs/ok.json'' = (Inr (), JDict [])"
    by blast
  from 1 2 show ?thesis by blast
qed

subsection \<open>Card detections\<close>

lemma dedup_by_keys: "set (map key (dedup_by key xs)) = set (map key xs)"
  by (induction key xs rule: dedup_by.induct) auto

lemma dedup_by_distinct: "distinct (map key (dedup_by key xs))"
proof (induction key xs rule: dedup_by.induct)
  case (1 key)
  then show ?case by simp
next
  case (2 key x xs)
  have "key x \<notin> set (map key (dedup_by key (filter (\<lambda>y. key y \<noteq> key x) xs)))"
    unfolding dedup_by_keys by auto
  with 2 show ?case by simp
qed

lemma dedup_by_filter:
  "dedup_by key (filter (\<lambda>y. key y \<noteq> k) xs) = filter (\<lambda>y. key y \<noteq> k) (dedup_by key xs)"
proof (induction key xs rule: dedup_by.induct)
  case (1 key)
  then show ?case by simp
next
  case (2 key x xs)
  have comm: "filter (\<lambda>y. key y \<noteq> key x) (filter (\<lambda>y. key y \<noteq> k) xs) =
              filter (\<lambda>y. key y \<noteq> k) (filter (\<lambda>y. key y \<noteq> key x) xs)"
    by (simp add: conj_commute)
  show ?case
  proof (cases "key x = k")
    case True
    have "filter (\<lambda>y. key y \<noteq> k) (filter (\<lambda>y. key y \<noteq> k) (dedup_by key xs)) =
          filter (\<lambda>y. key y \<noteq> k) (dedup_by key xs)"
      by simp
    with True 2 show ?thesis by simp
  next
    case False
    with 2 comm show ?thesis by simp
  qed
qed

lemma track_card_detection_as_detections:
  "track_card_detection s names shot now =
     foldl add_detection s (map (\<lambda>name. (name, shot, now)) names)"
  by (induction names arbitrary: s)
     (simp_all add: track_card_detection_def add_detection_def)

lemma foldl_ingest_detections:
  "foldl ingest s calls = foldl add_detection s (detections calls)"
proof (induction calls arbitrary: s)
  case Nil
  then show ?case by (simp add: detections_def)
next
  case (Cons call calls)
  have "ingest s call =
        foldl add_detection s (map (\<lambda>name. (name, snd call)) (fst call))"
    by (simp add: ingest_def track_card_detection_as_detections)
  with Cons show ?case by (simp add: detections_def)
qed

lemma add_detection_seen:
  "cards_seen (add_detection s d) =
     (if fst d \<in> set (map card_name (cards_seen s)) then cards_seen s
      else cards_seen s @ [to_event d])"
  by (simp add: add_detection_def add_card_def to_event_def Let_def)

lemma foldl_add_detection_seen:
  "cards_seen (foldl add_detection s ds) =
     cards_seen s @
     map to_event (dedup_by fst (filter (\<lambda>d. fst d \<notin> set (map card_name (cards_seen s))) ds))"
proof (induction ds arbitrary: s)
  case Nil
  then show ?case by simp
next
  case (Cons d ds)
  let ?seen = "set (map card_name (cards_seen s))"
  show ?case
  proof (cases "fst d \<in> ?seen")
    case True
    then have "cards_seen (add_detection s d) = cards_seen s"
      by (simp add: add_detection_seen)
    with True Cons [of "add_detection s d"] show ?thesis by simp
  next
    case False
    then have seen': "cards_seen (add_detection s d) = cards_seen s @ [to_event d]"
      by (simp add: add_detection_seen)
    have "filter (\<lambda>e. fst e \<notin> set (map card_name (cards_seen s @ [to_event d]))) ds =
          filter (\<lambda>e. fst e \<noteq> fst d) (filter (\<lambda>e. fst e \<notin> ?seen) ds)"
      by (auto simp: to_event_def intro: filter_cong)
    with False seen' Cons [of "add_detection s d"] show ?thesis by simp
  qed
qed

lemma add_card_seen_already:
  "name \<in> set (map card_name (cards_seen s)) \<Longrightarrow> add_card shot now s name = s"
  by (simp add: add_card_def Let_def)

lemma track_card_detection_seen_already:
  "set names \<subseteq> set (map card_name (cards_seen s)) \<Longrightarrow>
     track_card_detection s names shot now = s"
  unfolding track_card_detection_def
  by (induction names) (simp_all add: add_card_seen_already)

lemma remdups_snoc:
  "remdups (ys @ [x]) = filter (\<lambda>y. y \<noteq> x) (remdups ys) @ [x]"
  by (induction ys) auto

lemma dedup_by_map: "map key (dedup_by key xs) = dedup_by (\<lambda>k. k) (map key xs)"
  by (induction key xs rule: dedup_by.induct) (simp_all add: filter_map comp_def)

lemma dedup_by_first_occurrences: "dedup_by (\<lambda>k. k) xs = rev (remdups (rev xs))"
proof (induction xs)
  case Nil
  then show ?case by simp
next
  case (Cons x xs)
  have "dedup_by (\<lambda>k. k) (x # xs) = x # filter (\<lambda>y. y \<noteq> x) (dedup_by (\<lambda>k. k) xs)"
    by (simp add: dedup_by_filter)
  also have "\<dots> = x # filter (\<lambda>y. y \<noteq> x) (rev (remdups (rev xs)))"
    by (simp only: Cons.IH)
  also have "\<dots> = rev (remdups (rev (x # xs)))"
    by (simp add: remdups_snoc rev_filter)
  finally show ?case .
qed

lemma detections_names: "map fst (detections calls) = concat (map fst calls)"
  by (induction calls) (simp_all add: detections_def comp_def)

text \<open>
  Claim C1. Starting from a fresh session, after any sequence of
  \<open>track_card_detection\<close> calls the card list holds exactly one event per distinct
  name: the first detection of that name, with the clock reading and screenshot of the
  call that brought it, and the events stand in order of first arrival across calls.
  Names are compared as exact strings. A call whose names have all been seen changes
  nothing in the session, so no event is appended and no timestamp changes; a call with
  no names changes nothing either.
\<close>

theorem track_card_detection_first_wins:
  "cards_seen (foldl ingest (init_session stamp t0) calls) =
     map to_event (dedup_by fst (detections calls))
   \<and> distinct (map card_name (cards_seen (foldl ingest (init_session stamp t0) calls)))
   \<and> map card_name (cards_seen (foldl ingest (init_session stamp t0) calls)) =
       rev (remdups (rev (concat (map fst calls))))
   \<and> (set names \<subseteq> set (map card_name (cards_seen s)) \<longrightarrow>
       track_card_detection s names shot now = s)
   \<and> track_card_detection s [] shot now = s"
proof (intro conjI impI)
  let ?s = "foldl ingest (init_session stamp t0) calls"
  show seen: "cards_seen ?s = map to_event (dedup_by fst (detections calls))"
    by (simp add: foldl_ingest_detections foldl_add_detection_seen init_session_def)
  have names: "map card_name (map to_event ds) = map fst ds" for ds
    by (simp add: to_event_def)
  show "distinct (map card_name (cards_seen ?s))"
    unfolding seen names by (rule dedup_by_distinct)
  show "track_card_detection s names shot now = s"
    if "set names \<subseteq> set (map card_name (cards_seen s))"
    using that by (rule track_card_detection_seen_already)
  show "track_card_detection s [] shot now = s"
    by (simp add: track_card_detection_def)
  show "map card_name (cards_seen ?s) = rev (remdups (rev (concat (map fst calls))))"
    unfolding seen names dedup_by_map detections_names by (rule dedup_by_first_occurrences)
qed


theorem track_card_detection_first_wins_witness:
  "cards_seen sample_cards =
     [\<lparr>card_name = ''Adventure Card'', timestamp = ''2024-05-01T10:00:00'', screenshot = None,
       confidence = ''detected''\<rparr>,
      \<lparr>card_name = ''New Card'', timestamp = ''2024-05-01T10:00:00'', screenshot = None,
       confidence = ''detected''\<rparr>,
      \<lparr>card_name = ''adventure card'', timestamp = ''2024-05-01T10:00:05'',
       screenshot = Some ''shot.png'', confidence = ''detected''\<rparr>]
   \<and> track_card_detection sample_cards [''Adventure Card'', ''New Card''] None
         ''2024-05-01T10:00:10'' = sample_cards"
proof -
  note inst = track_card_detection_first_wins
    [of "''20240501_095900''" "''2024-05-01T09:59:00''" sample_calls
        "[''Adventure Card'', ''New Card'']" sample_cards None "''2024-05-01T10:00:10''",
     folded sample_cards_def]
  have seen: "cards_seen sample_cards =
     [\<lparr>card_name = ''Adventure Card'', timestamp = ''2024-05-01T10:00:00'', screenshot = None,
       confidence = ''detected''\<rparr>,
      \<lparr>card_name = ''New Card'', timestamp = ''2024-05-01T10:00:00'', screenshot = None,
       confidence = ''detected''\<rparr>,
      \<lparr>card_name = ''adventure card'', timestamp = ''2024-05-01T10:00:05'',
       screenshot = Some ''shot.png'', confidence = ''detected''\<rparr>]"
    using inst by (simp add: detections_def sample_calls_def to_event_def)
  have "set [''Adventure Card'', ''New Card''] \<subseteq> set (map card_name (cards_seen sample_cards))"
    unfolding seen by simp
  with inst have "track_card_detection sample_cards [''Adventure Card'', ''New Card''] None
         ''2024-05-01T10:00:10'' = sample_cards"
    by blast
  with seen show ?thesis by blast
qed

subsection \<open>The scenario list\<close>

lemma track_card_detection_scenarios:
  "scenarios (track_card_detection s names shot now) = scenarios s"
  unfolding track_card_detection_def
  by (induction names arbitrary: s) (simp_all add: add_card_def Let_def)

lemma perform_scenarios:
  "scenarios (fst (perform dir dump st oper)) = scenarios (fst st)"
proof (cases st)
  case (Pair s fs)
  then show ?thesis
    by (cases oper)
       (simp_all add: track_card_detection_scenarios track_game_event_def
          track_screenshot_def save_session_def Let_def)
qed

lemma foldl_perform_scenarios:
  "scenarios (fst (foldl (perform dir dump) st ops)) = scenarios (fst st)"
  by (induction ops arbitrary: st) (simp_all add: perform_scenarios)

text \<open>
  Claim C10. No operation of the tracker writes the scenario list: after any sequence
  of operations on a fresh session it is empty, and the statistics count zero
  scenarios.
\<close>

theorem scenarios_never_written:
  "scenarios (fst (foldl (perform dir dump) (init_session stamp now, fs) ops)) = []
   \<and> scenarios_identified
        (get_session_stats (fst (foldl (perform dir dump) (init_session stamp now, fs) ops)) dur)
       = 0"
  by (simp add: foldl_perform_scenarios get_session_stats_def init_session_def)

theorem scenarios_never_written_witness:
  "scenarios (fst (foldl (perform ''docs'' (\<lambda>s. session_id s))
       (init_session ''20240501_095900'' ''2024-05-01T09:59:00'', Map.empty) sample_operations)) = []"
  using scenarios_never_written
         [of "''docs''" "\<lambda>s. session_id s" "''20240501_095900''" "''2024-05-01T09:59:00''"
             Map.empty sample_operations "''00:04:00''"]
  by blast

subsection \<open>The report\<close>

lemma foldl_append_lines:
  "foldl (\<lambda>report x. report @ line x) report0 xs = report0 @ concat (map line xs)"
  by (induction xs arbitrary: report0) simp_all

lemma slice_from_last: "0 < k \<Longrightarrow> slice_from (- int k) xs = drop (length xs - k) xs"
proof -
  assume "0 < k"
  moreover have "nat (max 0 (int (length xs) - int k)) = length xs - k"
    by simp
  ultimately show ?thesis
    by (simp add: slice_from_def Let_def)
qed

lemma str_nat_digit: "n < 10 \<Longrightarrow> str_nat n = [char_of (48 + n)]"
  by (simp add: str_nat.simps)

lemma digit_chars:
  "char_of (48 :: nat) = CHR ''0''" "char_of (51 :: nat) = CHR ''3''"
  "char_of (55 :: nat) = CHR ''7''"
  by code_simp+

text \<open>
  Claim C9. The report is the heading with the session id, the duration and the three
  totals, then one line "  - name (at timestamp)" for every card of the card list, then
  the events heading and one line "  - type: description" for each of the last five
  game events only, in order: with \<open>n\<close> events recorded, \<open>min n 5\<close> lines; with seven,
  the third to the seventh.
\<close>

theorem report_shows_last_five:
  "generate_session_report s dur =
     [CHR 0x0A, CHR 0xF0, CHR 0x9F, CHR 0x8E, CHR 0xAE] @ '' CLANK! Tracker Session Report'' @
     [CHR 0x0A] @ ''================================'' @ [CHR 0x0A, CHR 0x0A] @
     ''Session ID: '' @ session_id s @ [CHR 0x0A] @
     ''Duration: '' @ dur @ [CHR 0x0A] @
     ''Cards Detected: '' @ str_nat (length (cards_seen s)) @ [CHR 0x0A] @
     ''Game Events: '' @ str_nat (length (game_events s)) @ [CHR 0x0A] @
     ''Screenshots: '' @ str_nat (length (screenshots s)) @ [CHR 0x0A, CHR 0x0A] @
     [CHR 0xF0, CHR 0x9F, CHR 0x93, CHR 0x84] @ '' Cards Seen:'' @ [CHR 0x0A] @
     concat (map (\<lambda>c. ''  - '' @ card_name c @ '' (at '' @ timestamp c @ '')'' @ [CHR 0x0A])
       (cards_seen s)) @
     [CHR 0x0A, CHR 0xF0, CHR 0x9F, CHR 0x8E, CHR 0xAF] @ '' Game Events:'' @ [CHR 0x0A] @
     concat (map (\<lambda>e. ''  - '' @ event_type e @ '': '' @ description e @ [CHR 0x0A])
       (drop (length (game_events s) - 5) (game_events s)))
   \<and> length (drop (length (game_events s) - 5) (game_events s)) = min (length (game_events s)) 5
   \<and> (game_events s = [e1, e2, e3, e4, e5, e6, e7] \<longrightarrow>
        drop (length (game_events s) - 5) (game_events s) = [e3, e4, e5, e6, e7])"
proof -
  have five: "slice_from (- 5) (game_events s) = drop (length (game_events s) - 5) (game_events s)"
    using slice_from_last [of 5 "game_events s"] by simp
  have main: "generate_session_report s dur =
     [CHR 0x0A, CHR 0xF0, CHR 0x9F, CHR 0x8E, CHR 0xAE] @ '' CLANK! Tracker Session Report'' @
     [CHR 0x0A] @ ''================================'' @ [CHR 0x0A, CHR 0x0A] @
     ''Session ID: '' @ session_id s @ [CHR 0x0A] @
     ''Duration: '' @ dur @ [CHR 0x0A] @
     ''Cards Detected: '' @ str_nat (length (cards_seen s)) @ [CHR 0x0A] @
     ''Game Events: '' @ str_nat (length (game_events s)) @ [CHR 0x0A] @
     ''Screenshots: '' @ str_nat (length (screenshots s)) @ [CHR 0x0A, CHR 0x0A] @
     [CHR 0xF0, CHR 0x9F, CHR 0x93, CHR 0x84] @ '' Cards Seen:'' @ [CHR 0x0A] @
     concat (map (\<lambda>c. ''  - '' @ card_name c @ '' (at '' @ timestamp c @ '')'' @ [CHR 0x0A])
       (cards_seen s)) @
     [CHR 0x0A, CHR 0xF0, CHR 0x9F, CHR 0x8E, CHR 0xAF] @ '' Game Events:'' @ [CHR 0x0A] @
     concat (map (\<lambda>e. ''  - '' @ event_type e @ '': '' @ description e @ [CHR 0x0A])
       (drop (length (game_events s) - 5) (game_events s)))"
    by (simp add: generate_session_report_def Let_def foldl_append_lines five
          report_head_def get_session_stats_def card_line_def event_line_def
          events_heading_def newline_def)
  have len: "length (drop (length (game_events s) - 5) (game_events s)) = min (length (game_events s)) 5"
    by simp
  have seven: "drop (length (game_events s) - 5) (game_events s) = [e3, e4, e5, e6, e7]"
    if "game_events s = [e1, e2, e3, e4, e5, e6, e7]"
    unfolding that by simp
  from main len seven show ?thesis by blast
qed

lemma sample_report_session_fields:
  "session_id sample_report_session = ''clank_session_20240501_095900''"
  "cards_seen sample_report_session =
     [\<lparr>card_name = ''Adventure Card'', timestamp = ''2024-05-01T10:00:00'', screenshot = None,
       confidence = ''detected''\<rparr>,
      \<lparr>card_name = ''New Card'', timestamp = ''2024-05-01T10:00:00'', screenshot = None,
       confidence = ''detected''\<rparr>,
      \<lparr>card_name = ''adventure card'', timestamp = ''2024-05-01T10:00:05'',
       screenshot = Some ''shot.png'', confidence = ''detected''\<rparr>]"
  "game_events sample_report_session =
     [sample_turn ''one'', sample_turn ''two'', sample_turn ''three'', sample_turn ''four'',
      sample_turn ''five'', sample_turn ''six'', sample_turn ''seven'']"
  "screenshots sample_report_session = []"
  by (simp_all add: sample_report_session_def sample_cards_def sample_calls_def ingest_def
        track_card_detection_def add_card_def track_game_event_def init_session_def
        generate_session_id_def sample_turn_def Let_def)

theorem report_shows_last_five_witness:
  "generate_session_report sample_report_session ''00:03:00'' =
     [CHR 0x0A, CHR 0xF0, CHR 0x9F, CHR 0x8E, CHR 0xAE] @ '' CLANK! Tracker Session Report'' @
     [CHR 0x0A] @ ''================================'' @ [CHR 0x0A, CHR 0x0A] @
     ''Session ID: clank_session_20240501_095900'' @ [CHR 0x0A] @
     ''Duration: 00:03:00'' @ [CHR 0x0A] @
     ''Cards Detected: 3'' @ [CHR 0x0A] @
     ''Game Events: 7'' @ [CHR 0x0A] @
     ''Screenshots: 0'' @ [CHR 0x0A, CHR 0x0A] @
     [CHR 0xF0, CHR 0x9F, CHR 0x93, CHR 0x84] @ '' Cards Seen:'' @ [CHR 0x0A] @
     ''  - Adventure Card (at 2024-05-01T10:00:00)'' @ [CHR 0x0A] @
     ''  - New Card (at 2024-05-01T10:00:00)'' @ [CHR 0x0A] @
     ''  - adventure card (at 2024-05-01T10:00:05)'' @ [CHR 0x0A] @
     [CHR 0x0A, CHR 0xF0, CHR 0x9F, CHR 0x8E, CHR 0xAF] @ '' Game Events:'' @ [CHR 0x0A] @
     ''  - turn: three'' @ [CHR 0x0A] @
     ''  - turn: four'' @ [CHR 0x0A] @
     ''  - turn: five'' @ [CHR 0x0A] @
     ''  - turn: six'' @ [CHR 0x0A] @
     ''  - turn: seven'' @ [CHR 0x0A]"
proof -
  from report_shows_last_five
         [of sample_report_session "''00:03:00''" "sample_turn ''one''" "sample_turn ''two''"
             "sample_turn ''three''" "sample_turn ''four''" "sample_turn ''five''"
             "sample_turn ''six''" "sample_turn ''seven''"]
  show ?thesis
    by (simp add: sample_report_session_fields sample_turn_def str_nat_digit digit_chars)
qed

subsection \<open>The card-name heuristic\<close>

lemma bit_length_numeral [simp]:
  "bit_length (numeral (Num.Bit0 k)) = Suc (bit_length (numeral k))"
  "bit_length (numeral (Num.Bit1 k)) = Suc (bit_length (numeral k))"
  "bit_length (numeral Num.One) = Suc 0"
  "bit_length (Suc 0) = Suc 0"
  "bit_length 0 = 0"
  by (simp_all add: bit_length.simps [of "numeral (Num.Bit0 k)"]
        bit_length.simps [of "numeral (Num.Bit1 k)"] bit_length.simps [of 1]
        bit_length.simps [of 0] bit_length.simps [of "Suc 0"]
        numeral_Bit0_div_2 numeral_Bit1_div_2)

lemma times_0_7_le_iff:
  "(times_0_7 n \<le> of_nat k) =
     (let p = n * mantissa_0_7;
          s = bit_length p - 53;
          q = p div 2 ^ s;
          r = p mod 2 ^ s;
          q' = (if 2 ^ s < 2 * r \<or> (2 * r = 2 ^ s \<and> odd q) then q + 1 else q)
      in q' * 2 ^ s \<le> k * 2 ^ 53)"
proof -
  have scaled: "(of_nat a / 2 ^ 53 \<le> (of_nat k :: rat)) = (a \<le> k * 2 ^ 53)" for a :: nat
  proof -
    have "(of_nat a / 2 ^ 53 \<le> (of_nat k :: rat)) = ((of_nat a :: rat) \<le> of_nat k * 2 ^ 53)"
      by (simp add: divide_le_eq)
    also have "\<dots> = ((of_nat a :: rat) \<le> of_nat (k * 2 ^ 53))"
      by simp
    also have "\<dots> = (a \<le> k * 2 ^ 53)"
      by (simp only: of_nat_le_iff)
    finally show ?thesis .
  qed
  show ?thesis
    unfolding times_0_7_def Let_def by (rule scaled)
qed

lemma seventy_percent:
  assumes "3 \<le> n" "n \<le> 30"
  shows "(times_0_7 n \<le> of_nat k) = (7 * n \<le> 10 * k)"
proof -
  from assms have
    "n \<in> {3,4,5,6,7,8,9,10,11,12,13,14,15,16,17,18,19,20,21,22,23,24,25,26,27,28,29,30}"
    by (simp; arith)
  then show ?thesis
    unfolding times_0_7_le_iff mantissa_0_7_def Let_def
    by (elim insertE emptyE; simp; linarith)
qed

lemma is_likely_card_name_code [code]:
  "is_likely_card_name text =
     (if length text < 3 then False
      else if list_ex (\<lambda>keyword. str_in keyword (lower text)) card_keywords then True
      else 3 \<le> length text \<and> length text \<le> 30 \<and>
           7 * length text \<le> 10 * length (filter isalpha text))"
proof (cases "3 \<le> length text \<and> length text \<le> 30")
  case True
  then have "text \<noteq> []" by auto
  with True show ?thesis
    by (simp add: is_likely_card_name_def seventy_percent)
next
  case False
  then show ?thesis
    by (auto simp: is_likely_card_name_def)
qed

text \<open>
  Claim C4. \<open>is_likely_card_name\<close> rejects a text shorter than three characters
  (the empty one included); otherwise it accepts a text whose lower-cased form contains
  one of the keywords; otherwise it accepts exactly when the length is at most 30 and at
  least 70 percent of the characters are letters. So the empty text, "x", "12345" and
  fifty times "a" are rejected and "Skill Point" is accepted.
\<close>

theorem is_likely_card_name_rule:
  "is_likely_card_name text =
     (if length text < 3 then False
      else if \<exists>keyword \<in> set card_keywords. \<exists>pre post. lower text = pre @ keyword @ post
        then True
      else 3 \<le> length text \<and> length text \<le> 30 \<and>
           7 * length text \<le> 10 * length (filter isalpha text))
   \<and> \<not> is_likely_card_name ''''
   \<and> \<not> is_likely_card_name ''x''
   \<and> \<not> is_likely_card_name ''12345''
   \<and> is_likely_card_name ''Skill Point''
   \<and> \<not> is_likely_card_name (replicate 50 CHR ''a'')"
proof (intro conjI)
  show "is_likely_card_name text =
     (if length text < 3 then False
      else if \<exists>keyword \<in> set card_keywords. \<exists>pre post. lower text = pre @ keyword @ post
        then True
      else 3 \<le> length text \<and> length text \<le> 30 \<and>
           7 * length text \<le> 10 * length (filter isalpha text))"
    unfolding is_likely_card_name_code list_ex_iff str_in_iff ..
  show "\<not> is_likely_card_name ''''" by code_simp
  show "\<not> is_likely_card_name ''x''" by code_simp
  show "\<not> is_likely_card_name ''12345''" by code_simp
  show "is_likely_card_name ''Skill Point''" by code_simp
  show "\<not> is_likely_card_name (replicate 50 CHR ''a'')" by code_simp
qed

theorem is_likely_card_name_rule_witness:
  "is_likely_card_name ''Burglars Pack'' \<and> \<not> is_likely_card_name ''Ab 1234''"
proof -
  have k1: "\<not> list_ex (\<lambda>keyword. str_in keyword (lower ''Burglars Pack'')) card_keywords"
    by code_simp
  have k2: "\<not> list_ex (\<lambda>keyword. str_in keyword (lower ''Ab 1234'')) card_keywords"
    by code_simp
  have n1: "\<not> (\<exists>keyword \<in> set card_keywords. \<exists>pre post. lower ''Burglars Pack'' = pre @ keyword @ post)"
    using k1 unfolding list_ex_iff str_in_iff .
  have n2: "\<not> (\<exists>keyword \<in> set card_keywords. \<exists>pre post. lower ''Ab 1234'' = pre @ keyword @ post)"
    using k2 unfolding list_ex_iff str_in_iff .
  have l1: "length (filter isalpha ''Burglars Pack'') = 12" by code_simp
  have l2: "length (filter isalpha ''Ab 1234'') = 2" by code_simp
  from is_likely_card_name_rule [of "''Burglars Pack''"] n1 l1
  have 1: "is_likely_card_name ''Burglars Pack''" by simp
  from is_likely_card_name_rule [of "''Ab 1234''"] n2 l2
  have 2: "\<not> is_likely_card_name ''Ab 1234''" by simp
  from 1 2 show ?thesis by blast
qed

subsection \<open>Extraction\<close>

lemma double_0_7_threshold:
  assumes "binary64_grid c"
  shows "(double_0_7 < c) = (7 / 10 < c)"
proof (cases "c < 1 / 2")
  case True
  then show ?thesis by (simp add: double_0_7_def)
next
  case False
  with assms have grid: "of_int \<lfloor>c * 2 ^ 53\<rfloor> = c * 2 ^ 53"
    unfolding binary64_grid_def by blast
  define k where "k = \<lfloor>c * 2 ^ 53\<rfloor>"
  from grid have "c * 2 ^ 53 = of_int k"
    unfolding k_def by (rule sym)
  then have c: "c = of_int k / 2 ^ 53"
    by (simp add: field_simps)
  have "(double_0_7 < c) = ((6305039478318694 :: rat) < of_int k)"
    unfolding c double_0_7_def by (simp add: divide_less_cancel)
  also have "\<dots> = (6305039478318694 < k)"
    by linarith
  also have "\<dots> = (7 * 2 ^ 53 < 10 * k)"
    by (simp; intro iffI; linarith)
  also have "\<dots> = ((of_int (7 * 2 ^ 53) :: rat) < of_int (10 * k))"
    by (simp only: of_int_less_iff)
  also have "\<dots> = ((7 * 2 ^ 53 :: rat) < 10 * of_int k)"
    by simp
  also have "\<dots> = (7 / 10 < c)"
    unfolding c by (simp add: field_simps)
  finally show ?thesis .
qed

lemma foldl_add_line:
  "foldl add_line acc ls = acc @ filter is_likely_card_name (map clean_text ls)"
  by (induction ls arbitrary: acc) (simp_all add: add_line_def Let_def)

lemma foldl_add_region:
  "foldl add_region acc rs =
     acc @ filter is_likely_card_name
             (map (\<lambda>region. clean_text (fst region))
                (filter (\<lambda>region. double_0_7 < snd region) rs))"
  by (induction rs arbitrary: acc) (simp_all add: add_region_def Let_def)

lemma foldl_add_unique:
  "foldl add_unique acc xs = acc @ dedup_by (\<lambda>k. k) (filter (\<lambda>x. x \<notin> set acc) xs)"
proof (induction xs arbitrary: acc)
  case Nil
  then show ?case by simp
next
  case (Cons x xs)
  show ?case
  proof (cases "x \<in> set acc")
    case True
    with Cons [of acc] show ?thesis by (simp add: add_unique_def)
  next
    case False
    have "filter (\<lambda>y. y \<notin> set (acc @ [x])) xs =
          filter (\<lambda>y. y \<noteq> x) (filter (\<lambda>y. y \<notin> set acc) xs)"
      by (auto intro: filter_cong)
    with False Cons [of "acc @ [x]"] show ?thesis by (simp add: add_unique_def)
  qed
qed

lemma clean_text_empty: "clean_text [] = []"
  by (simp add: clean_text_def split_def title_def strip_def lstrip_def rstrip_def)

lemma is_likely_card_name_empty: "\<not> is_likely_card_name []"
  by (simp add: is_likely_card_name_def)

lemma extract_card_names_unfolded:
  "extract_card_names self img =
     dedup_by (\<lambda>name. name)
       (filter is_likely_card_name
          (map clean_text (split_on CHR 0x0A (extract_text_pytesseract self img))) @
        filter is_likely_card_name
          (map (\<lambda>region. clean_text (fst region))
             (filter (\<lambda>region. double_0_7 < snd region) (extract_text_easyocr self img))))"
proof (cases "extract_text_pytesseract self img = []")
  case True
  then show ?thesis
    by (simp add: extract_card_names_def extract_card_names_calls_def Let_def
          foldl_add_region foldl_add_unique clean_text_empty is_likely_card_name_empty)
next
  case False
  then show ?thesis
    by (simp add: extract_card_names_def extract_card_names_calls_def Let_def
          foldl_add_line foldl_add_region foldl_add_unique)
qed

text \<open>
  Claim C3. With float confidences, \<open>extract_card_names\<close> returns the surviving lines
  of Engine A in their order, then the surviving regions of Engine B in theirs, with
  every string after its first occurrence dropped. A region survives only with a
  confidence strictly above 0.7. The result has no duplicates, and each of its strings
  is a cleaned text that the heuristic accepts.
\<close>

theorem extract_card_names_fusion:
  assumes "\<forall>region \<in> set (extract_text_easyocr self img). binary64_grid (snd region)"
  shows "extract_card_names self img =
           dedup_by (\<lambda>name. name) (surviving_lines self img @ surviving_regions self img)
         \<and> extract_card_names self img =
           rev (remdups (rev (surviving_lines self img @ surviving_regions self img)))
         \<and> distinct (extract_card_names self img)
         \<and> (\<forall>name \<in> set (extract_card_names self img).
               is_likely_card_name name \<and> (\<exists>raw. name = clean_text raw))"
proof -
  have "filter (\<lambda>region. double_0_7 < snd region) (extract_text_easyocr self img) =
        filter (\<lambda>region. 7 / 10 < snd region) (extract_text_easyocr self img)"
    using assms by (intro filter_cong refl) (simp add: double_0_7_threshold)
  then have main: "extract_card_names self img =
           dedup_by (\<lambda>name. name) (surviving_lines self img @ surviving_regions self img)"
    by (simp add: extract_card_names_unfolded surviving_lines_def surviving_regions_def)
  have first: "extract_card_names self img =
           rev (remdups (rev (surviving_lines self img @ surviving_regions self img)))"
    unfolding main by (rule dedup_by_first_occurrences)
  have dist: "distinct (extract_card_names self img)"
    unfolding main
    using dedup_by_distinct [of "\<lambda>name. name" "surviving_lines self img @ surviving_regions self img"]
    by simp
  have "set (extract_card_names self img) =
          set (surviving_lines self img) \<union> set (surviving_regions self img)"
    unfolding main
    using dedup_by_keys [of "\<lambda>name. name" "surviving_lines self img @ surviving_regions self img"]
    by simp
  then have passed: "\<forall>name \<in> set (extract_card_names self img).
               is_likely_card_name name \<and> (\<exists>raw. name = clean_text raw)"
    by (auto simp: surviving_lines_def surviving_regions_def)
  from main first dist passed show ?thesis by blast
qed

theorem extract_card_names_fusion_witness:
  "extract_card_names sample_processor sample_image =
     [''Skill Point'', ''Dungeon-Room'', ''Market Stall'']
   \<and> surviving_lines sample_processor sample_image = [''Skill Point'', ''Dungeon-Room'']
   \<and> surviving_regions sample_processor sample_image = [''Dungeon-Room'', ''Market Stall'']"
proof -
  have regions: "extract_text_easyocr sample_processor sample_image =
      [(''dungeon-ROOM'', 7 / 8), (''Gold Coin'', 1 / 2), (''market stall'', 3 / 4)]"
    by (simp add: extract_text_easyocr_def sample_processor_def sample_image_def)
  have grid: "\<forall>region \<in> set (extract_text_easyocr sample_processor sample_image).
                binary64_grid (snd region)"
    unfolding regions by (simp add: binary64_grid_def)
  have a: "surviving_lines sample_processor sample_image = [''Skill Point'', ''Dungeon-Room'']"
    by code_simp
  have b: "surviving_regions sample_processor sample_image = [''Dungeon-Room'', ''Market Stall'']"
    by code_simp
  from extract_card_names_fusion [OF grid] a b show ?thesis
    by simp
qed

subsection \<open>Which image the adapters read\<close>

text \<open>
  Claim C6, as stated: \<open>extract_card_names\<close> preprocesses the image and hands the
  preprocessed image to both adapters. On the sample colour image the adapters are
  called with the image as given, which is not the single-channel image the
  preprocessing returns; the sample engines read different names off the two.
\<close>

theorem adapters_get_preprocessed_counterexample:
  "preprocess_for_ocr sample_bgr2gray sample_otsu sample_image = Inr (Image_L [[0, 255]])
   \<and> snd (extract_card_names_calls sample_processor sample_image) =
       [Pytesseract_call sample_image, Easyocr_call sample_image]
   \<and> \<not> adapters_get_preprocessed sample_bgr2gray sample_otsu sample_processor sample_image
   \<and> extract_card_names sample_processor sample_image =
       [''Skill Point'', ''Dungeon-Room'', ''Market Stall'']
   \<and> extract_card_names sample_processor (Image_L [[0, 255]]) = [''Ancient Artifact'']"
proof -
  have pre: "preprocess_for_ocr sample_bgr2gray sample_otsu sample_image = Inr (Image_L [[0, 255]])"
    by (simp add: preprocess_for_ocr_def sample_image_def sample_bgr2gray_def sample_otsu_def)
  have calls: "snd (extract_card_names_calls sample_processor sample_image) =
       [Pytesseract_call sample_image, Easyocr_call sample_image]"
    by (simp add: extract_card_names_calls_def Let_def)
  have differ: "\<not> adapters_get_preprocessed sample_bgr2gray sample_otsu sample_processor sample_image"
    unfolding adapters_get_preprocessed_def pre calls by (simp add: sample_image_def)
  have raw: "extract_card_names sample_processor sample_image =
       [''Skill Point'', ''Dungeon-Room'', ''Market Stall'']"
    by code_simp
  have processed: "extract_card_names sample_processor (Image_L [[0, 255]]) = [''Ancient Artifact'']"
    by code_simp
  from pre calls differ raw processed show ?thesis by blast
qed

text \<open>
  Claim C6, amended. \<open>extract_card_names\<close> calls the Tesseract adapter and then the
  EasyOCR adapter, both with the very image it was given, and its result depends on
  the engines only through what they return for that image. Preprocessing is
  \<open>preprocess_for_ocr\<close> of the screen capture, which \<open>extract_card_names\<close> never calls.
\<close>

theorem extract_card_names_reads_given_image:
  "snd (extract_card_names_calls self img) = [Pytesseract_call img, Easyocr_call img]
   \<and> (image_to_string self' img = image_to_string self img \<and>
        readtext self' img = readtext self img \<longrightarrow>
        extract_card_names self' img = extract_card_names self img)"
  by (simp add: extract_card_names_def extract_card_names_calls_def Let_def
        extract_text_pytesseract_def extract_text_easyocr_def)

theorem extract_card_names_reads_given_image_witness:
  "snd (extract_card_names_calls sample_processor sample_image) =
     [Pytesseract_call sample_image, Easyocr_call sample_image]
   \<and> extract_card_names other_processor sample_image =
       extract_card_names sample_processor sample_image"
proof -
  have a: "image_to_string other_processor sample_image =
           image_to_string sample_processor sample_image"
    by (simp add: other_processor_def sample_image_def)
  have b: "readtext other_processor sample_image = readtext sample_processor sample_image"
    by (simp add: other_processor_def sample_image_def)
  from extract_card_names_reads_given_image [of sample_processor sample_image other_processor]
    a b
  show ?thesis by blast
qed

subsection \<open>Cleaning\<close>

text \<open>
  Claim C2. Cleaning "a ! b" leaves two spaces where the removed symbol stood alone:
  whitespace is collapsed before the symbols go. Cleaning the result again removes one
  of the two, so cleaning twice is not cleaning once on this input.
\<close>

theorem clean_text_twice:
  "clean_text ''a ! b'' = ''A  B'' \<and> clean_text (clean_text ''a ! b'') = ''A B''"
  by code_simp

text \<open>
  Claim C5, as stated: \<open>clean_text\<close> is the four steps of the specification, with
  words delimited by whitespace. On "DUNGEON-ROOM" the code capitalises after the
  hyphen as well and returns "Dungeon-Room", where the stated steps give
  "Dungeon-room".
\<close>

theorem claimed_clean_counterexample:
  "clean_text ''DUNGEON-ROOM'' \<noteq> claimed_clean ''DUNGEON-ROOM''"
  by code_simp

lemma upper_char_other: "\<not> isalpha c \<Longrightarrow> upper_char c = c"
  by (simp add: upper_char_def isalpha_def)

lemma lower_char_other: "\<not> isalpha c \<Longrightarrow> lower_char c = c"
  by (simp add: lower_char_def isalpha_def)

lemma isspace_not_isalpha: "isspace c \<Longrightarrow> \<not> isalpha c"
  by (auto simp: isspace_def isalpha_def isupper_def islower_def)

lemma word_break_not_isalpha: "word_break c \<Longrightarrow> \<not> isalpha c"
  by (auto simp: word_break_def isspace_def isalpha_def isupper_def islower_def code_def)

lemma title_from_breaks:
  "letters_after_breaks_from ok s \<Longrightarrow> (ok \<longrightarrow> b = w) \<Longrightarrow>
     title_from b s = hyphen_capitalize_from w s"
proof (induction s arbitrary: ok b w)
  case Nil
  then show ?case by simp
next
  case (Cons c cs)
  from Cons.prems have rest: "letters_after_breaks_from (isalpha c \<or> word_break c) cs"
    by simp
  have flags: "isalpha c \<or> word_break c \<longrightarrow> isalpha c = (\<not> word_break c)"
    using word_break_not_isalpha [of c] by blast
  have tail: "title_from (isalpha c) cs = hyphen_capitalize_from (\<not> word_break c) cs"
    by (rule Cons.IH [OF rest flags])
  show ?case
  proof (cases "isalpha c")
    case True
    with Cons.prems have "b = w" by simp
    moreover from True have "\<not> word_break c" using word_break_not_isalpha by blast
    ultimately show ?thesis using tail True by simp
  next
    case False
    then show ?thesis using tail
      by (simp add: upper_char_other lower_char_other)
  qed
qed

lemma title_letters_after_breaks:
  "letters_after_breaks s \<Longrightarrow> title s = hyphen_capitalize_words s"
  unfolding letters_after_breaks_def title_def hyphen_capitalize_words_def
  by (rule title_from_breaks) simp_all

subsection \<open>Padding\<close>

lemma strip_padding:
  assumes l: "\<forall>c \<in> set l. isspace c" and r: "\<forall>c \<in> set r. isspace c"
  shows "strip (l @ y @ r) = strip y"
proof -
  have left: "dropWhile isspace (l @ y @ r) = dropWhile isspace (y @ r)"
    using l by (simp add: dropWhile_append2)
  show ?thesis
  proof (cases "\<forall>c \<in> set y. isspace c")
    case True
    with l r have "dropWhile isspace (l @ y @ r) = []"
      by simp
    moreover from True have "dropWhile isspace y = []"
      by simp
    ultimately show ?thesis by (simp only: strip_def lstrip_def rstrip_def)
  next
    case False
    then have mid: "dropWhile isspace (y @ r) = dropWhile isspace y @ r"
      by (auto simp: dropWhile_append)
    have "dropWhile isspace (rev r @ rev (dropWhile isspace y)) =
          dropWhile isspace (rev (dropWhile isspace y))"
      using r by (simp add: dropWhile_append)
    with left mid show ?thesis by (simp add: strip_def lstrip_def rstrip_def)
  qed
qed

lemma filter_padding:
  assumes "\<forall>c \<in> set l. isspace c" and "\<forall>c \<in> set r. isspace c" and "\<And>c. isspace c \<Longrightarrow> P c"
  shows "filter P (l @ y @ r) = l @ filter P y @ r"
proof -
  from assms have "filter P l = l" "filter P r = r"
    by (simp_all add: filter_id_conv)
  then show ?thesis by simp
qed

lemma title_from_spaces: "\<forall>c \<in> set r. isspace c \<Longrightarrow> title_from b r = r"
  by (induction r arbitrary: b)
     (simp_all add: isspace_not_isalpha upper_char_other lower_char_other)

lemma title_from_append_spaces:
  "\<forall>c \<in> set r. isspace c \<Longrightarrow> title_from b (x @ r) = title_from b x @ r"
  by (induction x arbitrary: b) (simp_all add: title_from_spaces)

lemma title_from_spaces_append:
  "\<forall>c \<in> set l. isspace c \<Longrightarrow> title_from False (l @ x) = l @ title_from False x"
  by (induction l) (simp_all add: isspace_not_isalpha upper_char_other)

lemma title_padding:
  assumes "\<forall>c \<in> set l. isspace c" and "\<forall>c \<in> set r. isspace c"
  shows "title (l @ y @ r) = l @ title y @ r"
  using assms
  by (simp add: title_def title_from_spaces_append title_from_append_spaces)

subsection \<open>Collapsing and splitting\<close>

lemma collapse_split:
  "(w \<noteq> [] \<longrightarrow>
      (\<exists>r. (\<forall>c \<in> set r. isspace c) \<and>
           w @ collapse_from False s = join '' '' (split_from w s) @ r))
   \<and> (\<exists>l r. (\<forall>c \<in> set l. isspace c) \<and> (\<forall>c \<in> set r. isspace c) \<and> (b \<longrightarrow> l = []) \<and>
           collapse_from b s = l @ join '' '' (split_from [] s) @ r)"
proof (induction s arbitrary: w b)
  case Nil
  then show ?case by simp
next
  case (Cons c cs)
  have sp: "isspace CHR '' ''" by (simp add: isspace_def code_def)
  show ?case
  proof (cases "isspace c")
    case True
    from Cons [of "[]" True] obtain r where
      r: "\<forall>c \<in> set r. isspace c" and
      eq: "collapse_from True cs = join '' '' (split_from [] cs) @ r"
      by auto
    have first: "\<exists>r'. (\<forall>c \<in> set r'. isspace c) \<and>
           w @ collapse_from False (c # cs) = join '' '' (split_from w (c # cs)) @ r'"
      if "w \<noteq> []"
    proof (cases "split_from [] cs")
      case Nil
      with eq True that have "w @ collapse_from False (c # cs) =
          join '' '' (split_from w (c # cs)) @ (CHR '' '' # r)"
        by simp
      moreover have "\<forall>c \<in> set (CHR '' '' # r). isspace c" using r sp by simp
      ultimately show ?thesis by blast
    next
      case (Cons v vs)
      with eq True that have "w @ collapse_from False (c # cs) =
          join '' '' (split_from w (c # cs)) @ r"
        by simp
      with r show ?thesis by blast
    qed
    have second: "\<exists>l r'. (\<forall>c \<in> set l. isspace c) \<and> (\<forall>c \<in> set r'. isspace c) \<and> (b \<longrightarrow> l = []) \<and>
           collapse_from b (c # cs) = l @ join '' '' (split_from [] (c # cs)) @ r'"
    proof (cases b)
      case True
      with \<open>isspace c\<close> eq have "collapse_from b (c # cs) =
          [] @ join '' '' (split_from [] (c # cs)) @ r"
        by simp
      with r True show ?thesis by (metis empty_iff list.set(1))
    next
      case False
      with \<open>isspace c\<close> eq have "collapse_from b (c # cs) =
          '' '' @ join '' '' (split_from [] (c # cs)) @ r"
        by simp
      moreover have "\<forall>c \<in> set '' ''. isspace c" using sp by simp
      ultimately show ?thesis using r False by blast
    qed
    from first second show ?thesis by blast
  next
    case False
    from Cons [of "w @ [c]" False] obtain r where
      r: "\<forall>c \<in> set r. isspace c" and
      eq: "(w @ [c]) @ collapse_from False cs = join '' '' (split_from (w @ [c]) cs) @ r"
      by auto
    from Cons [of "[c]" False] obtain r1 where
      r1: "\<forall>c \<in> set r1. isspace c" and
      eq1: "[c] @ collapse_from False cs = join '' '' (split_from [c] cs) @ r1"
      by auto
    have first: "\<exists>r'. (\<forall>c \<in> set r'. isspace c) \<and>
           w @ collapse_from False (c # cs) = join '' '' (split_from w (c # cs)) @ r'"
      using False r eq by auto
    have "collapse_from b (c # cs) = [] @ join '' '' (split_from [] (c # cs)) @ r1"
      using False eq1 by simp
    with r1 have second: "\<exists>l r'. (\<forall>c \<in> set l. isspace c) \<and> (\<forall>c \<in> set r'. isspace c) \<and>
           (b \<longrightarrow> l = []) \<and>
           collapse_from b (c # cs) = l @ join '' '' (split_from [] (c # cs)) @ r'"
      by (metis empty_iff list.set(1))
    from first second show ?thesis by blast
  qed
qed

lemma collapse_whitespace_padding:
  obtains l r where "\<forall>c \<in> set l. isspace c" and "\<forall>c \<in> set r. isspace c"
    and "collapse_whitespace s = l @ join '' '' (split s) @ r"
  using collapse_split [of "[]" s False] unfolding collapse_whitespace_def split_def by blast

lemma kept_char_space: "isspace c \<Longrightarrow> kept_char c"
  by (simp add: kept_char_def)

lemma clean_text_collapse:
  "clean_text s = strip (title (filter kept_char (collapse_whitespace s)))"
proof -
  obtain l r where l: "\<forall>c \<in> set l. isspace c" and r: "\<forall>c \<in> set r. isspace c"
    and eq: "collapse_whitespace s = l @ join '' '' (split s) @ r"
    by (rule collapse_whitespace_padding)
  have "strip (title (filter kept_char (collapse_whitespace s))) =
        strip (title (l @ filter kept_char (join '' '' (split s)) @ r))"
    unfolding eq using l r by (simp add: filter_padding kept_char_space)
  also have "\<dots> = strip (l @ title (filter kept_char (join '' '' (split s))) @ r)"
    using l r by (simp add: title_padding)
  also have "\<dots> = strip (title (filter kept_char (join '' '' (split s))))"
    using l r by (rule strip_padding)
  finally show ?thesis by (simp add: clean_text_def Let_def)
qed

lemma collapse_from_chars: "set (collapse_from b s) \<subseteq> insert CHR '' '' (set s)"
  by (induction s arbitrary: b) auto

lemma filter_kept_claimed:
  "CHR ''_'' \<notin> set s \<Longrightarrow> filter kept_char s = filter claimed_char s"
  by (rule filter_cong) (auto simp: kept_char_def claimed_char_def word_char_def)

text \<open>
  Claim C5, amended. Take a text of code points below 128 without underscores in which,
  once the characters outside the kept set are stripped, every letter is first or
  follows a letter, whitespace or a hyphen. On it \<open>clean_text\<close> collapses each run of
  whitespace to one space, strips every character that is not a letter, a digit,
  whitespace, a hyphen or an apostrophe, upper-cases the first letter of every word
  delimited by whitespace or a hyphen and lower-cases the rest, and trims. Nothing is
  said of other texts, where a letter follows a digit, an apostrophe or an underscore.
\<close>

theorem clean_text_steps:
  assumes "ascii_only s"
    and "CHR ''_'' \<notin> set s"
    and "letters_after_breaks (filter claimed_char (collapse_whitespace s))"
  shows "clean_text s = hyphen_clean s"
proof -
  from assms(2) have "CHR ''_'' \<notin> set (collapse_whitespace s)"
    using collapse_from_chars [of False s] by (auto simp: collapse_whitespace_def)
  then have "filter kept_char (collapse_whitespace s) =
             filter claimed_char (collapse_whitespace s)"
    by (rule filter_kept_claimed)
  with assms(3) show ?thesis
    by (simp add: clean_text_collapse hyphen_clean_def title_letters_after_breaks)
qed

theorem clean_text_steps_witness:
  "clean_text ''  DUNGEON-room   card 2 '' = hyphen_clean ''  DUNGEON-room   card 2 ''
   \<and> clean_text ''  DUNGEON-room   card 2 '' = ''Dungeon-Room Card 2''
   \<and> ascii_only ''  DUNGEON-room   card 2 ''"
proof -
  have a: "ascii_only ''  DUNGEON-room   card 2 ''" by code_simp
  have b: "CHR ''_'' \<notin> set ''  DUNGEON-room   card 2 ''" by simp
  have c: "letters_after_breaks
             (filter claimed_char (collapse_whitespace ''  DUNGEON-room   card 2 ''))"
    by code_simp
  have d: "hyphen_clean ''  DUNGEON-room   card 2 '' = ''Dungeon-Room Card 2''" by code_simp
  from clean_text_steps [OF a b c] d a show ?thesis by simp
qed

end
